theory Spec2Isabelle
  imports Complex_Main
begin

section \<open>Calorie Burn Predictor and Fitness Tracker: the dashboard script\<close>

text \<open>
  The dashboard is one Streamlit script, \<^verbatim>\<open>app.py\<close>, that reads the widgets of the
  sidebar (gender, age, height, weight) and of the five tabs, and renders metrics from
  them. The widgets built with integer bounds return Python ints, modelled as \<open>int\<close>.
  A Python float is a rational number (\<open>rat\<close>): the value of the double. The float
  operations of the body mass index and of the weights derived from it (lines 76, 306,
  307 and 427) round their result to the nearest double, as \<open>round_double\<close> below does.
  The basal metabolic rate is exact in doubles. The calorie goals and the calories per
  minute, which the script prints rounded to a whole number or one decimal, are
  modelled by their exact values. An exception of the script is a value \<open>Inl e\<close> of a sum
  type.
\<close>

datatype py_error = ZeroDivisionError

subsection \<open>Python floats: rounding to the nearest double\<close>

text \<open>
  A double has 53 significant bits. For \<open>x > 0\<close> with \<open>2^e \<le> x < 2^(e+1)\<close> the doubles
  around \<open>x\<close> are the multiples of \<open>2^(e-52)\<close>, and an arithmetic operation returns the
  multiple nearest to its exact result, the even one at a tie. The exponent is not
  bounded here: \<open>round_double\<close> is the result of the machine for
  \<open>2^-1022 \<le> \<bar>x\<bar> < 2^1024\<close>, which holds for every number computed from the widgets of
  the sidebar. The power \<^verbatim>\<open>x ** 2\<close> is taken as the correctly rounded square.
\<close>

definition round_half_even :: "rat \<Rightarrow> int" where
  "round_half_even q =
     (let f = \<lfloor>q\<rfloor>; r = q - of_int f
      in if r < 1 / 2 then f else if 1 / 2 < r then f + 1 else if even f then f else f + 1)"

text \<open>The number of halvings that bring \<open>x \<ge> 1\<close> below 2.\<close>

function scale_down :: "rat \<Rightarrow> nat" where
  "scale_down x = (if 2 \<le> x then Suc (scale_down (x / 2)) else 0)"
  by pat_completeness auto
termination
proof (relation "measure (\<lambda>x. nat \<lfloor>x\<rfloor>)")
  show "wf (measure (\<lambda>x::rat. nat \<lfloor>x\<rfloor>))" by simp
next
  fix x :: rat assume x: "2 \<le> x"
  have "x / 2 \<le> x - 1" using x by simp
  then have "\<lfloor>x / 2\<rfloor> \<le> \<lfloor>x - 1\<rfloor>" by (rule floor_mono)
  moreover have "0 < \<lfloor>x\<rfloor>" using x by simp
  ultimately show "(x / 2, x) \<in> measure (\<lambda>x. nat \<lfloor>x\<rfloor>)" by simp
qed

text \<open>The number of doublings that bring \<open>0 < x < 1\<close> to 1 or above.\<close>

function scale_up :: "rat \<Rightarrow> nat" where
  "scale_up x = (if 0 < x \<and> x < 1 then Suc (scale_up (x * 2)) else 0)"
  by pat_completeness auto
termination
proof (relation "measure (\<lambda>x. nat \<lceil>1 / x\<rceil>)")
  show "wf (measure (\<lambda>x::rat. nat \<lceil>1 / x\<rceil>))" by simp
next
  fix x :: rat assume x: "0 < x \<and> x < 1"
  define y where "y = 1 / x"
  have y: "1 < y" using x by (simp add: y_def)
  have half: "1 / (x * 2) = y / 2" by (simp add: y_def)
  have "\<lceil>y / 2\<rceil> < \<lceil>y\<rceil>"
  proof (cases "2 \<le> y")
    case True
    then have "y / 2 \<le> y - 1" by simp
    then have "\<lceil>y / 2\<rceil> \<le> \<lceil>y - 1\<rceil>" by (rule ceiling_mono)
    then show ?thesis by simp
  next
    case False
    then have "y / 2 \<le> 1" by simp
    then have "\<lceil>y / 2\<rceil> \<le> 1" by (simp add: ceiling_le_one)
    moreover have "1 < \<lceil>y\<rceil>" using y by (simp add: less_ceiling_iff)
    ultimately show ?thesis by linarith
  qed
  then have "\<lceil>1 / (x * 2)\<rceil> < \<lceil>1 / x\<rceil>"
    unfolding half by (simp add: y_def)
  then show "(x * 2, x) \<in> measure (\<lambda>x. nat \<lceil>1 / x\<rceil>)"
    using x by simp
qed

declare scale_down.simps [simp del] scale_up.simps [simp del]

definition pow2 :: "int \<Rightarrow> rat" where
  "pow2 e = 2 powi e"

text \<open>The exponent \<open>e\<close> of \<open>x > 0\<close>: \<open>2^e \<le> x < 2^(e+1)\<close>.\<close>

definition binade :: "rat \<Rightarrow> int" where
  "binade x = (if 1 \<le> x then int (scale_down x) else - int (scale_up x))"

definition round_double :: "rat \<Rightarrow> rat" where
  "round_double x =
     (if x = 0 then 0
      else let u = pow2 (binade \<bar>x\<bar> - 52)
           in sgn x * of_int (round_half_even (\<bar>x\<bar> / u)) * u)"

subsection \<open>Widgets\<close>

text \<open>
  \<^verbatim>\<open>st.number_input(label, min_value, max_value, value)\<close> and
  \<^verbatim>\<open>st.slider(label, min_value, max_value, value)\<close> return a number between the two
  bounds: the widget holds no other value. A widget is modelled by the predicate saying
  which returned values are possible.
\<close>

definition number_input :: "int \<Rightarrow> int \<Rightarrow> int \<Rightarrow> bool" where
  "number_input min_value max_value v = (min_value \<le> v \<and> v \<le> max_value)"

definition slider :: "int \<Rightarrow> int \<Rightarrow> int \<Rightarrow> bool" where
  "slider min_value max_value v = (min_value \<le> v \<and> v \<le> max_value)"

text \<open>Lines 71 to 73 and 113 to 114 of \<^verbatim>\<open>app.py\<close>.\<close>

definition age_input :: "int \<Rightarrow> bool" where
  "age_input v = number_input 10 100 v"

definition height_input :: "int \<Rightarrow> bool" where
  "height_input v = number_input 100 250 v"

definition weight_input :: "int \<Rightarrow> bool" where
  "weight_input v = number_input 30 200 v"

definition duration_slider :: "int \<Rightarrow> bool" where
  "duration_slider v = slider 5 180 v"

definition heart_rate_slider :: "int \<Rightarrow> bool" where
  "heart_rate_slider v = slider 60 200 v"

subsection \<open>Sidebar: the body mass index\<close>

text \<open>
  Line 76: \<^verbatim>\<open>bmi = weight / ((height / 100) ** 2)\<close>, three float operations: the
  quotient of the two ints, its square, and the quotient of the weight by the square.
  Python raises \<^verbatim>\<open>ZeroDivisionError\<close> when the divisor is zero.
\<close>

definition height_m_squared :: "int \<Rightarrow> rat" where
  "height_m_squared height_cm = round_double ((round_double (of_int height_cm / 100)) ^ 2)"

definition float_truediv :: "rat \<Rightarrow> rat \<Rightarrow> py_error + rat" where
  "float_truediv a b = (if b = 0 then Inl ZeroDivisionError else Inr (round_double (a / b)))"

definition compute_bmi :: "rat \<Rightarrow> int \<Rightarrow> py_error + rat" where
  "compute_bmi weight_kg height_cm = float_truediv weight_kg (height_m_squared height_cm)"

subsection \<open>Tab 3: ideal weight range and daily calorie guidelines\<close>

text \<open>
  Lines 306 and 307: the ideal weight range is the weight at BMI 18.5 and at BMI 24.9.
  Line 427 (tab 5) converts the target BMI to a target weight in the same way. Each is
  a float product; the literal 18.5 is a double, the literal 24.9 is the double nearest
  to it.
\<close>

definition ideal_min :: "int \<Rightarrow> rat" where
  "ideal_min height_cm = round_double (18.5 * height_m_squared height_cm)"

definition ideal_max :: "int \<Rightarrow> rat" where
  "ideal_max height_cm = round_double (round_double 24.9 * height_m_squared height_cm)"

definition target_weight_of :: "rat \<Rightarrow> int \<Rightarrow> rat" where
  "target_weight_of target_bmi height_cm = round_double (target_bmi * height_m_squared height_cm)"

text \<open>
  Lines 419 to 425: the target BMI field, a float between 18.5 and 24.9 (the double
  nearest to it).
\<close>

definition target_bmi_input :: "rat \<Rightarrow> bool" where
  "target_bmi_input v = (round_double v = v \<and> 18.5 \<le> v \<and> v \<le> round_double 24.9)"

text \<open>Lines 325 to 328: the basal metabolic rate.\<close>

definition bmr :: "string \<Rightarrow> int \<Rightarrow> int \<Rightarrow> int \<Rightarrow> rat" where
  "bmr gender weight_kg height_cm age_years =
     (if gender = ''Male''
      then 10 * of_int weight_kg + 6.25 * of_int height_cm - 5 * of_int age_years + 5
      else 10 * of_int weight_kg + 6.25 * of_int height_cm - 5 * of_int age_years - 161)"

text \<open>
  The Mifflin-St Jeor equation as it is published: a sex-independent part and a constant
  of \<open>+5\<close> for men and \<open>-161\<close> for women. This definition follows the specification's
  words, not the script.
\<close>

definition mifflin_st_jeor :: "bool \<Rightarrow> rat \<Rightarrow> rat \<Rightarrow> rat \<Rightarrow> rat" where
  "mifflin_st_jeor male w h a = 10 * w + 6.25 * h - 5 * a + (if male then 5 else - 161)"

text \<open>
  Lines 334 to 339: the maintenance intake and the third metric, whose label and value
  depend on the BMI. The metric is modelled by its label and the number it formats.
\<close>

datatype goal_metric = Weight_Loss_Goal rat | Weight_Gain_Goal rat

definition maintain_weight :: "rat \<Rightarrow> rat" where
  "maintain_weight b = b * 1.55"

definition weight_goal :: "rat \<Rightarrow> rat \<Rightarrow> goal_metric" where
  "weight_goal bmi_value b =
     (if bmi_value > 25 then Weight_Loss_Goal (b * 1.55 - 500)
      else Weight_Gain_Goal (b * 1.55 + 500))"

text \<open>The whole guideline column for a profile: the BMI of the sidebar, then the metric.\<close>

definition daily_calorie_goal :: "string \<Rightarrow> int \<Rightarrow> int \<Rightarrow> int \<Rightarrow> py_error + goal_metric" where
  "daily_calorie_goal gender age_years height_cm weight_kg =
     (case compute_bmi (of_int weight_kg) height_cm of
        Inl e \<Rightarrow> Inl e
      | Inr bmi_value \<Rightarrow> Inr (weight_goal bmi_value (bmr gender weight_kg height_cm age_years)))"

text \<open>Lines 285 to 290: the coloured steps of the BMI gauge, as (low, high, colour).\<close>

definition gauge_steps :: "(rat \<times> rat \<times> string) list" where
  "gauge_steps =
     [(15, 18.5, ''lightblue''),
      (18.5, 25, ''lightgreen''),
      (25, 30, ''yellow''),
      (30, 40, ''lightcoral'')]"

subsection \<open>Tab 1: the calories-per-minute metric\<close>

text \<open>
  Line 160: \<^verbatim>\<open>calories/duration\<close>, with the estimate returned by the predictor; the
  quotient itself, which the script prints to one decimal.
\<close>

definition py_truediv :: "rat \<Rightarrow> rat \<Rightarrow> py_error + rat" where
  "py_truediv a b = (if b = 0 then Inl ZeroDivisionError else Inr (a / b))"

definition cal_per_min :: "rat \<Rightarrow> int \<Rightarrow> py_error + rat" where
  "cal_per_min calories duration_min = py_truediv calories (of_int duration_min)"

subsection \<open>Tab 1: the entry handed to the logbook\<close>

text \<open>
  Lines 141 to 149: the dictionary built after a prediction. It has no time stamp; the
  logbook adds one (line 261 reads the column \<^verbatim>\<open>timestamp\<close> of the stored entries).
\<close>

record log_entry =
  calories_burned :: rat
  exercise_type :: string
  duration :: int
  heart_rate :: int
  body_temp :: rat
  weight :: int
  bmi :: rat

record logged_entry = log_entry +
  timestamp :: int

section \<open>The backend module\<close>

text \<open>
  \<^verbatim>\<open>app.py\<close> imports \<^verbatim>\<open>CaloriePredictor\<close>, \<^verbatim>\<open>NutritionAdvisor\<close>, \<^verbatim>\<open>LogBook\<close> and
  \<^verbatim>\<open>AIAnalyzer\<close> from a module \<^verbatim>\<open>backend\<close> whose source is not among the files. The
  definitions of this section are written from the specification; each says so.
\<close>

subsection \<open>LogBook\<close>

type_synonym logbook = "logged_entry list"

text \<open>
  Modelled from the spec: the time stamp that \<^verbatim>\<open>LogBook.add_entry\<close> (backend module,
  absent) gives an entry. The specification calls the logbook an append-only collection
  of prediction events with time stamp, an ordered sequence to which entries are
  appended. Time is counted in seconds; \<open>now\<close> is the clock at the call.
\<close>

definition stamp :: "int \<Rightarrow> log_entry \<Rightarrow> logged_entry" where
  "stamp now e =
     \<lparr>calories_burned = calories_burned e, exercise_type = exercise_type e,
      duration = duration e, heart_rate = heart_rate e, body_temp = body_temp e,
      weight = weight e, bmi = bmi e, timestamp = now\<rparr>"

text \<open>
  Modelled from the spec: \<^verbatim>\<open>LogBook.add_entry\<close> (backend module, absent): the stamped
  entry goes to the end of the sequence.
\<close>

definition add_entry :: "int \<Rightarrow> log_entry \<Rightarrow> logbook \<Rightarrow> logbook" where
  "add_entry now e lb = lb @ [stamp now e]"

text \<open>
  Modelled from the spec: the start of the date range of \<^verbatim>\<open>LogBook.get_logs(days)\<close>
  and \<^verbatim>\<open>LogBook.get_stats(days)\<close> (backend module, absent), \<open>days\<close> days before now.
\<close>

definition cutoff :: "int \<Rightarrow> int \<Rightarrow> int" where
  "cutoff now days = now - days * 86400"

text \<open>
  Modelled from the spec: \<^verbatim>\<open>LogBook.get_logs(days)\<close> (backend module, absent), the
  date-range filter: the entries of the last \<open>days\<close> days, in the order of the logbook.
\<close>

definition get_logs :: "int \<Rightarrow> int \<Rightarrow> logbook \<Rightarrow> logged_entry list" where
  "get_logs now days lb = filter (\<lambda>e. cutoff now days \<le> timestamp e) lb"

text \<open>The keys of the statistics that \<^verbatim>\<open>app.py\<close> reads (lines 176 to 182 and 545 to 546).\<close>

record stats =
  total_calories :: rat
  avg_calories :: rat
  total_sessions :: nat
  total_duration :: int

text \<open>
  Modelled from the spec: the pass of \<^verbatim>\<open>LogBook.get_stats(days)\<close> (backend module,
  absent), which the specification describes as a linear filter and reduce over the
  sequence: one pass that skips the entries before the cut-off and accumulates the
  calories, the number of sessions and the minutes of the others.
\<close>

fun stats_pass :: "int \<Rightarrow> logged_entry list \<Rightarrow> rat \<times> nat \<times> int \<Rightarrow> rat \<times> nat \<times> int" where
  "stats_pass c [] acc = acc"
| "stats_pass c (e # es) (tc, n, td) =
     stats_pass c es
       (if c \<le> timestamp e then (tc + calories_burned e, Suc n, td + duration e)
        else (tc, n, td))"

text \<open>
  Modelled from the spec: \<^verbatim>\<open>LogBook.get_stats(days)\<close> (backend module, absent): the
  totals of the pass and their average. The specification does not say what the average
  of no session is; the model gives 0 there, and \<^verbatim>\<open>app.py\<close> asks for statistics only
  after it has seen a non-empty log (lines 170 and 541).
\<close>

definition get_stats :: "int \<Rightarrow> int \<Rightarrow> logbook \<Rightarrow> stats" where
  "get_stats now days lb =
     (case stats_pass (cutoff now days) lb (0, 0, 0) of
        (tc, n, td) \<Rightarrow>
          \<lparr>total_calories = tc,
           avg_calories = (if n = 0 then 0 else tc / of_nat n),
           total_sessions = n,
           total_duration = td\<rparr>)"

text \<open>
  Modelled from the spec: the calendar day of a time stamp, for the per-day aggregation of
  \<^verbatim>\<open>LogBook.get_daily_aggregates(days)\<close> (backend module, absent).
\<close>

definition date_of :: "int \<Rightarrow> int" where
  "date_of ts = ts div 86400"

text \<open>
  Modelled from the spec: one step of the per-day aggregation of
  \<^verbatim>\<open>LogBook.get_daily_aggregates(days)\<close> (backend module, absent): the calories join
  the total of their day, or open a new day at the end.
\<close>

fun add_to_day :: "int \<Rightarrow> rat \<Rightarrow> (int \<times> rat) list \<Rightarrow> (int \<times> rat) list" where
  "add_to_day d c [] = [(d, c)]"
| "add_to_day d c ((d', s) # rest) =
     (if d = d' then (d', s + c) # rest else (d', s) # add_to_day d c rest)"

text \<open>
  Modelled from the spec: \<^verbatim>\<open>LogBook.get_daily_aggregates(days)\<close> (backend module,
  absent), the per-day aggregation: the calories of the filtered entries summed by
  calendar day, the days in the order of their first entry.
\<close>

definition get_daily_aggregates :: "int \<Rightarrow> int \<Rightarrow> logbook \<Rightarrow> (int \<times> rat) list" where
  "get_daily_aggregates now days lb =
     foldl (\<lambda>acc e. add_to_day (date_of (timestamp e)) (calories_burned e) acc) []
       (get_logs now days lb)"

text \<open>
  The four operations on one logbook, each with the clock at its call, for statements
  about any sequence of calls. A query returns its answer and leaves the logbook as it is.
\<close>

datatype logbook_op =
  Add_entry int log_entry
  | Get_logs int int
  | Get_stats int int
  | Get_daily_aggregates int int

datatype logbook_answer =
  Added
  | Logs "logged_entry list"
  | Stats stats
  | Daily "(int \<times> rat) list"

fun run_op :: "logbook_op \<Rightarrow> logbook \<Rightarrow> logbook_answer \<times> logbook" where
  "run_op (Add_entry now e) lb = (Added, add_entry now e lb)"
| "run_op (Get_logs now days) lb = (Logs (get_logs now days lb), lb)"
| "run_op (Get_stats now days) lb = (Stats (get_stats now days lb), lb)"
| "run_op (Get_daily_aggregates now days) lb = (Daily (get_daily_aggregates now days lb), lb)"

fun run_ops :: "logbook_op list \<Rightarrow> logbook \<Rightarrow> logbook" where
  "run_ops [] lb = lb"
| "run_ops (x # xs) lb = run_ops xs (snd (run_op x lb))"

subsection \<open>NutritionAdvisor\<close>

datatype bmi_category = Underweight | Normal | Overweight | Obese

text \<open>
  Modelled from the spec: \<^verbatim>\<open>NutritionAdvisor.get_bmi_category\<close> (backend module,
  absent). The specification assigns the categories at the boundaries 18.5, 25 and 30.
\<close>

definition get_bmi_category :: "rat \<Rightarrow> bmi_category" where
  "get_bmi_category b =
     (if b < 18.5 then Underweight
      else if b < 25 then Normal
      else if b < 30 then Overweight
      else Obese)"

text \<open>
  A step of the monthly plan, with the two keys that lines 468 and 469 of \<^verbatim>\<open>app.py\<close>
  read. The specification does not say what the calorie adjustment, the exercise goal and
  the focus areas of a step are; they are left out.
\<close>

record monthly_plan_step =
  month :: nat
  target_weight :: rat

text \<open>
  Modelled from the spec: \<^verbatim>\<open>NutritionAdvisor.get_monthly_suggestions\<close> (backend module,
  absent). The specification derives a month-by-month plan from the current BMI, the
  target BMI, the weight and the height, whose weight targets interpolate between the
  current and the target weight. The model interpolates linearly, in equal monthly steps,
  to the target weight that tab 5 shows (line 427).
  The specification does not say how many months the plan has, so the number is the
  parameter \<open>months\<close>.
\<close>

definition get_monthly_suggestions ::
    "nat \<Rightarrow> rat \<Rightarrow> rat \<Rightarrow> int \<Rightarrow> int \<Rightarrow> monthly_plan_step list" where
  "get_monthly_suggestions months current_bmi target_bmi weight_kg height_cm =
     (let goal = target_weight_of target_bmi height_cm;
          per_month = (goal - of_int weight_kg) / of_nat months
      in map (\<lambda>m. \<lparr>month = m, target_weight = of_int weight_kg + per_month * of_nat m\<rparr>)
           [1..<Suc months])"

section \<open>The dashboard script, continued: what it does with the backend's answers\<close>

subsection \<open>Tab 5: the projected weight journey\<close>

text \<open>Lines 468 and 469: month 0 with the current weight, then the steps of the plan.\<close>

definition projected_months :: "monthly_plan_step list \<Rightarrow> nat list" where
  "projected_months monthly_plan = 0 # map month monthly_plan"

definition projected_weights :: "int \<Rightarrow> monthly_plan_step list \<Rightarrow> rat list" where
  "projected_weights weight_kg monthly_plan = of_int weight_kg # map target_weight monthly_plan"

subsection \<open>Tab 2 and the sidebar footer: statistics only for a non-empty log\<close>

text \<open>
  Lines 166 to 266 and 541 to 546. The backend is a parameter here: \<open>logs\<close>, \<open>stats_of\<close>,
  \<open>daily\<close> and \<open>analyze\<close> stand for \<^verbatim>\<open>logbook.get_logs\<close>, \<^verbatim>\<open>logbook.get_stats\<close>,
  \<^verbatim>\<open>logbook.get_daily_aggregates\<close> and \<^verbatim>\<open>AIAnalyzer.analyze_performance\<close> (at the
  profile of the session). Each function returns the backend calls it made, in order,
  and what it renders. The data frame of a list of entries is empty exactly when the
  list is. The texts are those of the script without their pictographs.
\<close>

datatype backend_call =
  Call_get_logs int
  | Call_get_stats int
  | Call_get_daily_aggregates int
  | Call_analyze_performance

datatype ('e, 's, 'd, 'a) tab2_view =
  Analytics 's 'd 'a "'e list"
  | Tab2_info string

datatype 's quick_stats_view =
  Quick_metrics 's
  | Quick_info string

definition tail_df :: "nat \<Rightarrow> 'e list \<Rightarrow> 'e list" where
  "tail_df k xs = drop (length xs - k) xs"

definition logbook_tab ::
    "(int \<Rightarrow> 'e list) \<Rightarrow> (int \<Rightarrow> 's) \<Rightarrow> (int \<Rightarrow> 'd) \<Rightarrow> ('e list \<Rightarrow> 'a) \<Rightarrow> int
      \<Rightarrow> backend_call list \<times> ('e, 's, 'd, 'a) tab2_view" where
  "logbook_tab logs stats_of daily analyze days_filter =
     (let logs_df = logs days_filter in
      if logs_df \<noteq> []
      then ([Call_get_logs days_filter, Call_get_stats days_filter,
             Call_get_daily_aggregates days_filter, Call_analyze_performance],
            Analytics (stats_of days_filter) (daily days_filter) (analyze logs_df)
              (tail_df 10 logs_df))
      else ([Call_get_logs days_filter],
            Tab2_info ''No logs yet! Start by predicting your calorie burn in the first tab.''))"

definition sidebar_quick_stats ::
    "(int \<Rightarrow> 'e list) \<Rightarrow> (int \<Rightarrow> 's) \<Rightarrow> backend_call list \<times> 's quick_stats_view" where
  "sidebar_quick_stats logs stats_of =
     (if logs 7 = []
      then ([Call_get_logs 7], Quick_info ''No activity this week. Start logging!'')
      else ([Call_get_logs 7, Call_get_stats 7], Quick_metrics (stats_of 7)))"

section \<open>Auxiliary definitions\<close>

text \<open>
  The weight of month \<open>m\<close> on the straight line from \<open>w\<close> to \<open>goal\<close> in \<open>n\<close> months: the
  closed form of the plan's targets, used in the proofs.
\<close>

definition journey :: "rat \<Rightarrow> rat \<Rightarrow> nat \<Rightarrow> nat \<Rightarrow> rat" where
  "journey w goal n m = w + (goal - w) / of_nat n * of_nat m"

text \<open>An entry as tab 1 builds it, for the worked examples.\<close>

definition sample_entry :: log_entry where
  "sample_entry =
     \<lparr>calories_burned = 250, exercise_type = ''Running'', duration = 30, heart_rate = 120,
      body_temp = 37, weight = 70, bmi = 24\<rparr>"

section \<open>Properties of the script\<close>

subsection \<open>Rounding to the nearest double\<close>

lemma abs_round_half_even: "\<bar>of_int (round_half_even q) - q\<bar> \<le> 1 / 2"
proof -
  have "of_int \<lfloor>q\<rfloor> \<le> q" "q < of_int \<lfloor>q\<rfloor> + 1" by linarith+
  then show ?thesis
    by (auto simp: round_half_even_def Let_def abs_le_iff)
qed

lemma scale_down_bounds: "1 \<le> x \<Longrightarrow> 2 ^ scale_down x \<le> x \<and> x < 2 * 2 ^ scale_down x"
proof (induction x rule: scale_down.induct)
  case (1 x)
  show ?case
  proof (cases "2 \<le> x")
    case True
    then have "1 \<le> x / 2" by simp
    with "1.IH" [OF True]
    have "2 ^ scale_down (x / 2) \<le> x / 2 \<and> x / 2 < 2 * 2 ^ scale_down (x / 2)"
      by blast
    moreover have "scale_down x = Suc (scale_down (x / 2))"
      using True by (simp add: scale_down.simps [of x])
    ultimately show ?thesis by simp
  next
    case False
    then have "scale_down x = 0" by (simp add: scale_down.simps [of x])
    with False "1.prems" show ?thesis by simp
  qed
qed

lemma scale_up_bounds:
  "0 < x \<Longrightarrow> x < 1 \<Longrightarrow> 1 \<le> x * 2 ^ scale_up x \<and> x * 2 ^ scale_up x < 2"
proof (induction x rule: scale_up.induct)
  case (1 x)
  then have step: "scale_up x = Suc (scale_up (x * 2))"
    by (simp add: scale_up.simps [of x])
  show ?case
  proof (cases "x * 2 < 1")
    case True
    with "1.IH" "1.prems"
    have "1 \<le> x * 2 * 2 ^ scale_up (x * 2) \<and> x * 2 * 2 ^ scale_up (x * 2) < 2"
      by simp
    then show ?thesis by (simp add: step mult.assoc)
  next
    case False
    then have "scale_up (x * 2) = 0" by (simp add: scale_up.simps [of "x * 2"])
    with False "1.prems" show ?thesis by (simp add: step)
  qed
qed

lemma pow2_pos: "0 < pow2 e"
  by (simp add: pow2_def)

lemma binade_bounds: "0 < x \<Longrightarrow> pow2 (binade x) \<le> x \<and> x < 2 * pow2 (binade x)"
proof (cases "1 \<le> x")
  case True
  then show ?thesis using scale_down_bounds [of x] by (simp add: binade_def pow2_def)
next
  case False
  assume "0 < x"
  with False have b: "1 \<le> x * 2 ^ scale_up x \<and> x * 2 ^ scale_up x < 2"
    using scale_up_bounds [of x] by simp
  have eq: "pow2 (binade x) = 1 / 2 ^ scale_up x"
    using False by (simp add: binade_def pow2_def power_int_minus field_simps)
  show ?thesis unfolding eq using b by (simp add: field_simps)
qed

lemma pow2_minus_52: "pow2 (e - 52) = pow2 e / 2 ^ 52"
  by (simp add: pow2_def power_int_diff)

text \<open>The relative error of one rounding is at most \<open>2^-53\<close>.\<close>

lemma round_double_error:
  assumes "0 < x"
  shows "\<bar>round_double x - x\<bar> \<le> x / 2 ^ 53"
proof -
  define u where "u = pow2 (binade x - 52)"
  define m where "m = (of_int (round_half_even (x / u)) :: rat)"
  have u: "0 < u" by (simp add: u_def pow2_pos)
  have ux: "u * 2 ^ 52 \<le> x"
    using binade_bounds [OF assms] by (simp add: u_def pow2_minus_52)
  have rd: "round_double x = m * u"
    using assms by (simp add: round_double_def u_def m_def Let_def)
  have "m * u - x = (m - x / u) * u"
    using u by (simp add: field_simps)
  then have "\<bar>round_double x - x\<bar> = \<bar>m - x / u\<bar> * u"
    using u by (simp add: rd abs_mult)
  also have "\<dots> \<le> 1 / 2 * u"
    using abs_round_half_even [of "x / u"] u unfolding m_def by (intro mult_right_mono) simp_all
  also have "\<dots> \<le> x / 2 ^ 53"
    using ux by (simp add: field_simps)
  finally show ?thesis .
qed

lemma round_double_bounds:
  assumes "0 < x"
  shows "x * (1 - 1 / 2 ^ 53) \<le> round_double x" and "round_double x \<le> x * (1 + 1 / 2 ^ 53)"
proof -
  from round_double_error [OF assms]
  have "round_double x - x \<le> x / 2 ^ 53" and "- (round_double x - x) \<le> x / 2 ^ 53"
    by (simp_all only: abs_le_iff)
  then show "x * (1 - 1 / 2 ^ 53) \<le> round_double x"
    and "round_double x \<le> x * (1 + 1 / 2 ^ 53)"
    by (simp_all add: algebra_simps)
qed

lemma round_double_pos: "0 < x \<Longrightarrow> 0 < round_double x"
proof -
  assume x: "0 < x"
  have "0 < x * (1 - 1 / 2 ^ 53)" using x by simp
  with round_double_bounds(1) [OF x] show ?thesis by linarith
qed

lemma round_double_minus: "round_double (- x) = - round_double x"
  by (simp add: round_double_def Let_def)

lemma round_double_eq_0_iff: "round_double x = 0 \<longleftrightarrow> x = 0"
proof
  assume r: "round_double x = 0"
  show "x = 0"
  proof (rule ccontr)
    assume "x \<noteq> 0"
    then consider "0 < x" | "0 < - x" by linarith
    then show False
    proof cases
      case 1
      then show False using round_double_pos [of x] r by simp
    next
      case 2
      then show False using round_double_pos [of "- x"] r by (simp add: round_double_minus)
    qed
  qed
next
  assume "x = 0"
  then show "round_double x = 0" by (simp add: round_double_def)
qed

text \<open>
  Two roundings in a row: a number within one rounding error of \<open>a\<close>, rounded, is within
  \<open>2^-51\<close> of \<open>a\<close>, relatively.
\<close>

lemma round_double_twice:
  assumes a: "0 < a" and lo: "a * (1 - 1 / 2 ^ 53) \<le> y" and hi: "y \<le> a * (1 + 1 / 2 ^ 53)"
  shows "\<bar>round_double y - a\<bar> \<le> a / 2 ^ 51"
proof -
  have "0 < a * (1 - 1 / 2 ^ 53)" using a by simp
  with lo have y: "0 < y" by linarith
  have e: "\<bar>round_double y - y\<bar> \<le> y / 2 ^ 53"
    by (rule round_double_error [OF y])
  have "y / 2 ^ 53 \<le> a * (1 + 1 / 2 ^ 53) / 2 ^ 53"
    using hi by (simp add: divide_right_mono)
  with e have e': "\<bar>round_double y - y\<bar> \<le> a * (1 + 1 / 2 ^ 53) / 2 ^ 53"
    by linarith
  have "y - a \<le> a / 2 ^ 53" and "- (y - a) \<le> a / 2 ^ 53"
    using lo hi by (simp_all add: algebra_simps)
  then have d: "\<bar>y - a\<bar> \<le> a / 2 ^ 53"
    by (simp only: abs_le_iff)
  have "\<bar>round_double y - a\<bar> \<le> \<bar>round_double y - y\<bar> + \<bar>y - a\<bar>"
    by linarith
  also have "\<dots> \<le> a * (1 + 1 / 2 ^ 53) / 2 ^ 53 + a / 2 ^ 53"
    using e' d by linarith
  also have "\<dots> \<le> a / 2 ^ 51"
    using a by (simp add: field_simps)
  finally show ?thesis .
qed

lemma mult_div_round_trip:
  assumes "0 < a" and "0 < c"
  shows "\<bar>round_double (round_double (a * c) / c) - a\<bar> \<le> a / 2 ^ 51"
proof (rule round_double_twice [OF assms(1)])
  have p: "0 < a * c" using assms by simp
  show "a * (1 - 1 / 2 ^ 53) \<le> round_double (a * c) / c"
    using round_double_bounds(1) [OF p] assms(2) by (simp add: field_simps)
  show "round_double (a * c) / c \<le> a * (1 + 1 / 2 ^ 53)"
    using round_double_bounds(2) [OF p] assms(2) by (simp add: field_simps)
qed

lemma div_mult_round_trip:
  assumes "0 < a" and "0 < c"
  shows "\<bar>round_double (round_double (a / c) * c) - a\<bar> \<le> a / 2 ^ 51"
proof (rule round_double_twice [OF assms(1)])
  have p: "0 < a / c" using assms by simp
  show "a * (1 - 1 / 2 ^ 53) \<le> round_double (a / c) * c"
    using round_double_bounds(1) [OF p] assms(2) by (simp add: field_simps)
  show "round_double (a / c) * c \<le> a * (1 + 1 / 2 ^ 53)"
    using round_double_bounds(2) [OF p] assms(2) by (simp add: field_simps)
qed

lemma round_double_crude:
  assumes "0 < x"
  shows "x / 2 \<le> round_double x" and "round_double x \<le> 2 * x"
proof -
  have "x / 2 \<le> x * (1 - 1 / 2 ^ 53)" and "x * (1 + 1 / 2 ^ 53) \<le> 2 * x"
    using assms by (simp_all add: algebra_simps)
  with round_double_bounds [OF assms]
  show "x / 2 \<le> round_double x" and "round_double x \<le> 2 * x"
    by linarith+
qed

subsection \<open>Body mass index and weight\<close>

lemma height_m_squared_pos: "h \<noteq> 0 \<Longrightarrow> 0 < height_m_squared h"
proof -
  assume "h \<noteq> 0"
  then have "round_double (of_int h / 100) \<noteq> 0"
    by (simp add: round_double_eq_0_iff)
  then have "0 < (round_double (of_int h / 100))\<^sup>2" by simp
  then show ?thesis unfolding height_m_squared_def by (rule round_double_pos)
qed

lemma height_m_squared_zero_iff: "height_m_squared h = 0 \<longleftrightarrow> h = 0"
proof
  assume "height_m_squared h = 0"
  then show "h = 0" using height_m_squared_pos [of h] by force
next
  assume "h = 0"
  then show "height_m_squared h = 0" by (simp add: height_m_squared_def round_double_def)
qed

lemma compute_bmi_defined:
  "h \<noteq> 0 \<Longrightarrow> compute_bmi w h = Inr (round_double (w / height_m_squared h))"
  by (simp add: compute_bmi_def float_truediv_def height_m_squared_zero_iff)

lemma compute_bmi_zero_height: "compute_bmi w 0 = Inl ZeroDivisionError"
  by (simp add: compute_bmi_def float_truediv_def height_m_squared_zero_iff)

lemma height_input_nonzero: "height_input h \<Longrightarrow> h \<noteq> 0"
  by (auto simp: height_input_def number_input_def)

text \<open>
  The three roundings of line 76 together: the BMI of the script is the quotient
  \<open>weight / (height/100)^2\<close> up to a relative error of \<open>2^-50\<close>.
\<close>

lemma bmi_close_to_quotient:
  assumes h: "0 < h" and w: "0 < w"
  shows "\<bar>round_double (w / height_m_squared h) - w / (of_int h / 100) ^ 2\<bar>
           \<le> w / (of_int h / 100) ^ 2 / 2 ^ 50"
proof -
  define r :: rat where "r = 1 / 2 ^ 53"
  define q :: rat where "q = of_int h / 100"
  define a where "a = round_double q"
  define s where "s = round_double (a\<^sup>2)"
  define t where "t = w / s"
  define B where "B = w / q\<^sup>2"
  have r: "0 < r" "r < 1" by (simp_all add: r_def)
  have q: "0 < q" using h by (simp add: q_def)
  have B: "0 < B" using w q by (simp add: B_def)
  have a_lo: "q * (1 - r) \<le> a" and a_hi: "a \<le> q * (1 + r)"
    using round_double_bounds [OF q] by (simp_all add: a_def r_def)
  have a: "0 < a" unfolding a_def by (rule round_double_pos [OF q])
  have a2: "0 < a\<^sup>2" using a by simp
  have "(q * (1 - r))\<^sup>2 \<le> a\<^sup>2"
    using a_lo q r by (intro power_mono) simp_all
  then have a2_lo: "q\<^sup>2 * (1 - r)\<^sup>2 \<le> a\<^sup>2" by (simp add: power_mult_distrib)
  have "a\<^sup>2 \<le> (q * (1 + r))\<^sup>2"
    using a_hi a by (intro power_mono) simp_all
  then have a2_hi: "a\<^sup>2 \<le> q\<^sup>2 * (1 + r)\<^sup>2" by (simp add: power_mult_distrib)
  have s_lo': "a\<^sup>2 * (1 - r) \<le> s" and s_hi': "s \<le> a\<^sup>2 * (1 + r)"
    using round_double_bounds [OF a2] by (simp_all add: s_def r_def)
  have "q\<^sup>2 * (1 - r)\<^sup>2 * (1 - r) \<le> a\<^sup>2 * (1 - r)"
    using a2_lo r by (intro mult_right_mono) simp_all
  with s_lo' have s_lo: "q\<^sup>2 * (1 - r) ^ 3 \<le> s"
    by (simp add: power3_eq_cube power2_eq_square mult.assoc)
  have "a\<^sup>2 * (1 + r) \<le> q\<^sup>2 * (1 + r)\<^sup>2 * (1 + r)"
    using a2_hi r by (intro mult_right_mono) simp_all
  with s_hi' have s_hi: "s \<le> q\<^sup>2 * (1 + r) ^ 3"
    by (simp add: power3_eq_cube power2_eq_square mult.assoc)
  have s: "0 < s" unfolding s_def by (rule round_double_pos [OF a2])
  have lo_pos: "0 < q\<^sup>2 * (1 - r) ^ 3" using q r by simp
  have hi_pos: "0 < q\<^sup>2 * (1 + r) ^ 3" using q r by simp
  have "w / (q\<^sup>2 * (1 + r) ^ 3) \<le> w / s"
    using s_hi s w by (intro divide_left_mono) simp_all
  then have t_lo: "B / (1 + r) ^ 3 \<le> t" by (simp add: t_def B_def)
  have "w / s \<le> w / (q\<^sup>2 * (1 - r) ^ 3)"
    using s_lo lo_pos s w by (intro divide_left_mono) simp_all
  then have t_hi: "t \<le> B / (1 - r) ^ 3" by (simp add: t_def B_def)
  have t: "0 < t" using w s by (simp add: t_def)
  have b_lo': "t * (1 - r) \<le> round_double t" and b_hi': "round_double t \<le> t * (1 + r)"
    using round_double_bounds [OF t] by (simp_all add: r_def)
  have "B / (1 + r) ^ 3 * (1 - r) \<le> t * (1 - r)"
    using t_lo r by (intro mult_right_mono) simp_all
  with b_lo' have b_lo: "B * ((1 - r) / (1 + r) ^ 3) \<le> round_double t" by simp
  have "t * (1 + r) \<le> B / (1 - r) ^ 3 * (1 + r)"
    using t_hi r by (intro mult_right_mono) simp_all
  with b_hi' have b_hi: "round_double t \<le> B * ((1 + r) / (1 - r) ^ 3)" by simp
  have n_lo: "1 - 1 / 2 ^ 50 \<le> (1 - r) / (1 + r) ^ 3"
    by (simp add: r_def power3_eq_cube)
  have n_hi: "(1 + r) / (1 - r) ^ 3 \<le> 1 + 1 / 2 ^ 50"
    by (simp add: r_def power3_eq_cube)
  have "B * (1 - 1 / 2 ^ 50) \<le> B * ((1 - r) / (1 + r) ^ 3)"
    using n_lo B by (intro mult_left_mono) simp_all
  with b_lo have lo: "B * (1 - 1 / 2 ^ 50) \<le> round_double t" by linarith
  have "B * ((1 + r) / (1 - r) ^ 3) \<le> B * (1 + 1 / 2 ^ 50)"
    using n_hi B by (intro mult_left_mono) simp_all
  with b_hi have hi: "round_double t \<le> B * (1 + 1 / 2 ^ 50)" by linarith
  have "round_double t - B \<le> B / 2 ^ 50" and "- (round_double t - B) \<le> B / 2 ^ 50"
    using lo hi by (simp_all add: algebra_simps)
  then have "\<bar>round_double t - B\<bar> \<le> B / 2 ^ 50"
    by (simp only: abs_le_iff)
  then show ?thesis
    by (simp only: t_def s_def a_def q_def B_def height_m_squared_def)
qed

text \<open>
  With the inputs of the sidebar and of the target field, every exact result that lines
  76 and 427 round lies between \<open>1/8\<close> and \<open>4096\<close>, far inside the range of the normal
  doubles, where \<open>round_double\<close> is the rounding of the machine.
\<close>

lemma sidebar_values_in_range:
  assumes h: "height_input h" and w: "weight_input w" and tb: "target_bmi_input tb"
  shows "1 \<le> (of_int h / 100 :: rat) \<and> (of_int h / 100 :: rat) \<le> 4"
    and "1 / 4 \<le> (round_double (of_int h / 100))\<^sup>2 \<and> (round_double (of_int h / 100))\<^sup>2 \<le> 64"
    and "1 / 8 \<le> height_m_squared h \<and> height_m_squared h \<le> 128"
    and "1 / 8 \<le> of_int w / height_m_squared h \<and> of_int w / height_m_squared h \<le> 2048"
    and "1 / 8 \<le> tb * height_m_squared h \<and> tb * height_m_squared h \<le> 4096"
proof -
  define q :: rat where "q = of_int h / 100"
  define a where "a = round_double q"
  define s where "s = height_m_squared h"
  have q: "1 \<le> q" "q \<le> 4"
    using h by (simp_all add: q_def height_input_def number_input_def)
  then have q0: "0 < q" by simp
  have a: "1 / 2 \<le> a" "a \<le> 8"
    using round_double_crude [OF q0] q by (simp_all add: a_def)
  have "(1 / 2)\<^sup>2 \<le> a\<^sup>2" using a by (intro power_mono) simp_all
  moreover have "a\<^sup>2 \<le> 8\<^sup>2" using a by (intro power_mono) simp_all
  ultimately have a2: "1 / 4 \<le> a\<^sup>2" "a\<^sup>2 \<le> 64" by (simp_all add: power2_eq_square)
  then have a20: "0 < a\<^sup>2" by linarith
  have s_eq: "s = round_double (a\<^sup>2)"
    by (simp add: s_def a_def q_def height_m_squared_def)
  have s: "1 / 8 \<le> s" "s \<le> 128"
    using round_double_crude [OF a20] a2 by (simp_all add: s_eq)
  then have s0: "0 < s" by simp
  have w': "30 \<le> (of_int w :: rat)" "(of_int w :: rat) \<le> 200"
    using w by (simp_all add: weight_input_def number_input_def)
  have "(of_int w :: rat) / 128 \<le> of_int w / s"
    using s s0 w' by (intro divide_left_mono) simp_all
  moreover have "(of_int w :: rat) / s \<le> of_int w / (1 / 8)"
    using s s0 w' by (intro divide_left_mono) simp_all
  moreover have "(1 / 8 :: rat) \<le> of_int w / 128" and "(of_int w :: rat) / (1 / 8) \<le> 2048"
    using w' by simp_all
  ultimately have ws: "1 / 8 \<le> of_int w / s" "of_int w / s \<le> 2048"
    by linarith+
  have tb': "18 \<le> tb" "tb \<le> 25"
  proof -
    have "round_double 24.9 \<le> 2 * 24.9" by (rule round_double_crude) simp
    then show "18 \<le> tb" "tb \<le> 25"
      using tb round_double_bounds(2) [of "24.9"] by (simp_all add: target_bmi_input_def)
  qed
  have "18 * (1 / 8) \<le> tb * s" using tb' s by (intro mult_mono) simp_all
  moreover have "tb * s \<le> 25 * 128" using tb' s s0 by (intro mult_mono) simp_all
  ultimately have ts: "1 / 8 \<le> tb * s" "tb * s \<le> 4096" by simp_all
  show "1 \<le> (of_int h / 100 :: rat) \<and> (of_int h / 100 :: rat) \<le> 4"
    using q by (simp add: q_def)
  show "1 / 4 \<le> (round_double (of_int h / 100))\<^sup>2 \<and> (round_double (of_int h / 100))\<^sup>2 \<le> 64"
    using a2 by (simp add: a_def q_def)
  show "1 / 8 \<le> height_m_squared h \<and> height_m_squared h \<le> 128"
    using s by (simp add: s_def)
  show "1 / 8 \<le> of_int w / height_m_squared h \<and> of_int w / height_m_squared h \<le> 2048"
    using ws by (simp add: s_def)
  show "1 / 8 \<le> tb * height_m_squared h \<and> tb * height_m_squared h \<le> 4096"
    using ts by (simp add: s_def)
qed

text \<open>Doubles that the examples below need, each evaluated on its own.\<close>

lemma double_24_8: "round_double (248 / 10) = 6980579422424269 / 281474976710656"
  by code_simp

lemma double_24_8_fixed:
  "round_double (6980579422424269 / 281474976710656) = 6980579422424269 / 281474976710656"
  by code_simp

lemma double_24_9: "round_double 24.9 = 3504363460047667 / 140737488355328"
  by code_simp

lemma double_22: "round_double 22 = 22"
  by code_simp

lemma height_m_squared_114: "height_m_squared 114 = 731609759466337 / 562949953421312"
proof -
  have a: "round_double (114 / 100) = 5134103575202365 / 4503599627370496"
    by code_simp
  have b: "round_double ((5134103575202365 / 4503599627370496)\<^sup>2) =
      731609759466337 / 562949953421312"
    by code_simp
  show ?thesis
    by (simp only: height_m_squared_def of_int_numeral a b)
qed

lemma height_m_squared_120: "height_m_squared 120 = 3242591731706757 / 2251799813685248"
proof -
  have a: "round_double (120 / 100) = 5404319552844595 / 4503599627370496"
    by code_simp
  have b: "round_double ((5404319552844595 / 4503599627370496)\<^sup>2) =
      3242591731706757 / 2251799813685248"
    by code_simp
  show ?thesis
    by (simp only: height_m_squared_def of_int_numeral a b)
qed

lemma height_m_squared_140: "height_m_squared 140 = 8827055269646171 / 4503599627370496"
proof -
  have a: "round_double (140 / 100) = 6305039478318694 / 4503599627370496"
    by code_simp
  have b: "round_double ((6305039478318694 / 4503599627370496)\<^sup>2) =
      8827055269646171 / 4503599627370496"
    by code_simp
  show ?thesis
    by (simp only: height_m_squared_def of_int_numeral a b)
qed

lemma height_m_squared_170: "height_m_squared 170 = 3253850730775183 / 1125899906842624"
proof -
  have a: "round_double (170 / 100) = 7656119366529843 / 4503599627370496"
    by code_simp
  have b: "round_double ((7656119366529843 / 4503599627370496)\<^sup>2) =
      3253850730775183 / 1125899906842624"
    by code_simp
  show ?thesis
    by (simp only: height_m_squared_def of_int_numeral a b)
qed

lemma height_m_squared_200: "height_m_squared 200 = 4"
proof -
  have a: "round_double (200 / 100) = 2"
    by code_simp
  have b: "round_double (2\<^sup>2) = 4"
    by code_simp
  show ?thesis
    by (simp only: height_m_squared_def of_int_numeral a b)
qed

lemma compute_bmi_100_200: "compute_bmi 100 200 = Inr 25"
proof -
  have "round_double (100 / 4) = 25" by code_simp
  then show ?thesis
    by (simp add: compute_bmi_def float_truediv_def height_m_squared_200)
qed

text \<open>49 kg at 140 cm: the quotient is 25, the script computes 25.000000000000004.\<close>

lemma compute_bmi_49_140: "compute_bmi 49 140 = Inr (25 + 1 / 2 ^ 48)"
proof -
  have "round_double (49 / (8827055269646171 / 4503599627370496)) = 25 + 1 / 2 ^ 48"
    by code_simp
  then show ?thesis
    by (simp add: compute_bmi_def float_truediv_def height_m_squared_140)
qed

text \<open>Target 24.8 at 114 cm: the target weight, and the BMI of the target weight.\<close>

lemma target_weight_of_24_8_114:
  "target_weight_of (6980579422424269 / 281474976710656) 114 =
     2267990254345645 / 70368744177664"
proof -
  have "round_double (6980579422424269 / 281474976710656 * (731609759466337 / 562949953421312))
      = 2267990254345645 / 70368744177664"
    by code_simp
  then show ?thesis
    by (simp only: target_weight_of_def height_m_squared_114)
qed

lemma compute_bmi_of_target_weight_114:
  "compute_bmi (2267990254345645 / 70368744177664) 114 =
     Inr (6980579422424269 / 281474976710656 + 1 / 2 ^ 48)"
proof -
  have "round_double (2267990254345645 / 70368744177664 / (731609759466337 / 562949953421312))
      = 6980579422424269 / 281474976710656 + 1 / 2 ^ 48"
    by code_simp
  moreover have "(731609759466337 / 562949953421312 :: rat) \<noteq> 0" by simp
  ultimately show ?thesis
    by (simp only: compute_bmi_def float_truediv_def height_m_squared_114 if_False)
qed

text \<open>30 kg at 120 cm: the BMI, and the weight of that BMI.\<close>

lemma compute_bmi_30_120: "compute_bmi 30 120 = Inr (2932031007402667 / 140737488355328)"
proof -
  have "round_double (30 / (3242591731706757 / 2251799813685248)) =
      2932031007402667 / 140737488355328"
    by code_simp
  moreover have "(3242591731706757 / 2251799813685248 :: rat) \<noteq> 0" by simp
  ultimately show ?thesis
    by (simp only: compute_bmi_def float_truediv_def height_m_squared_120 if_False)
qed

lemma target_weight_of_bmi_30_120:
  "target_weight_of (2932031007402667 / 140737488355328) 120 = 30 + 1 / 2 ^ 48"
proof -
  have "round_double (2932031007402667 / 140737488355328 * (3242591731706757 / 2251799813685248))
      = 30 + 1 / 2 ^ 48"
    by code_simp
  then show ?thesis
    by (simp only: target_weight_of_def height_m_squared_120)
qed

text \<open>
  C5. The BMI is the weight divided by the square of the height in metres,
  \<open>bmi = weight / (height/100)^2\<close>, and the target weight is the inverse conversion,
  \<open>target_weight = target_bmi * (height/100)^2\<close>, with the same squared height, each
  operation rounded to the nearest double. For every height, weight and target BMI that
  the widgets admit, the BMI is the exact quotient within a relative error of \<open>2^-50\<close>,
  and a round trip returns its starting value within a relative error of \<open>2^-51\<close>: the BMI
  of the target weight is the target BMI up to that error, and the weight of the BMI is
  the weight up to that error. The ideal weight range is the same conversion at 18.5 and
  at 24.9.
\<close>

theorem bmi_round_trip_up_to_rounding:
  "height_input h \<Longrightarrow> weight_input w \<Longrightarrow> target_bmi_input tb \<Longrightarrow>
     height_m_squared h = round_double ((round_double (of_int h / 100))\<^sup>2)
   \<and> compute_bmi (of_int w) h = Inr (round_double (of_int w / height_m_squared h))
   \<and> \<bar>round_double (of_int w / height_m_squared h) - of_int w / (of_int h / 100)\<^sup>2\<bar>
       \<le> of_int w / (of_int h / 100)\<^sup>2 / 2 ^ 50
   \<and> target_weight_of tb h = round_double (tb * height_m_squared h)
   \<and> compute_bmi (target_weight_of tb h) h =
       Inr (round_double (target_weight_of tb h / height_m_squared h))
   \<and> \<bar>round_double (target_weight_of tb h / height_m_squared h) - tb\<bar> \<le> tb / 2 ^ 51
   \<and> \<bar>target_weight_of (round_double (of_int w / height_m_squared h)) h - of_int w\<bar>
       \<le> of_int w / 2 ^ 51
   \<and> ideal_min h = target_weight_of 18.5 h
   \<and> ideal_max h = target_weight_of (round_double 24.9) h"
proof -
  assume h: "height_input h" and w: "weight_input w" and tb: "target_bmi_input tb"
  have h0: "h \<noteq> 0" and hpos: "0 < h"
    using h by (simp_all add: height_input_def number_input_def)
  have wpos: "0 < (of_int w :: rat)"
    using w by (simp add: weight_input_def number_input_def)
  have tbpos: "0 < tb"
    using tb by (simp add: target_bmi_input_def)
  have s: "0 < height_m_squared h"
    by (rule height_m_squared_pos [OF h0])
  have c1: "height_m_squared h = round_double ((round_double (of_int h / 100))\<^sup>2)"
    by (simp add: height_m_squared_def)
  have c2: "compute_bmi (of_int w) h = Inr (round_double (of_int w / height_m_squared h))"
    by (rule compute_bmi_defined [OF h0])
  have c3: "\<bar>round_double (of_int w / height_m_squared h) - of_int w / (of_int h / 100)\<^sup>2\<bar>
       \<le> of_int w / (of_int h / 100)\<^sup>2 / 2 ^ 50"
    by (rule bmi_close_to_quotient [OF hpos wpos])
  have c4: "target_weight_of tb h = round_double (tb * height_m_squared h)"
    by (simp add: target_weight_of_def)
  have c5: "compute_bmi (target_weight_of tb h) h =
       Inr (round_double (target_weight_of tb h / height_m_squared h))"
    by (rule compute_bmi_defined [OF h0])
  have c6: "\<bar>round_double (target_weight_of tb h / height_m_squared h) - tb\<bar> \<le> tb / 2 ^ 51"
    unfolding target_weight_of_def by (rule mult_div_round_trip [OF tbpos s])
  have c7: "\<bar>target_weight_of (round_double (of_int w / height_m_squared h)) h - of_int w\<bar>
       \<le> of_int w / 2 ^ 51"
    unfolding target_weight_of_def by (rule div_mult_round_trip [OF wpos s])
  have c8: "ideal_min h = target_weight_of 18.5 h"
    by (simp add: ideal_min_def target_weight_of_def)
  have c9: "ideal_max h = target_weight_of (round_double 24.9) h"
    by (simp add: ideal_max_def target_weight_of_def)
  from c1 c2 c3 c4 c5 c6 c7 c8 c9 show ?thesis by blast
qed

theorem bmi_round_trip_up_to_rounding_witness:
  "height_input 170 \<and> weight_input 70 \<and> target_bmi_input 22
   \<and> height_m_squared 170 = 3253850730775183 / 1125899906842624
   \<and> compute_bmi (of_int 70) 170 = Inr (round_double (of_int 70 / height_m_squared 170))
   \<and> \<bar>round_double (of_int 70 / height_m_squared 170) - of_int 70 / (of_int 170 / 100)\<^sup>2\<bar>
       \<le> of_int 70 / (of_int 170 / 100)\<^sup>2 / 2 ^ 50
   \<and> \<bar>round_double (target_weight_of 22 170 / height_m_squared 170) - 22\<bar> \<le> 22 / 2 ^ 51
   \<and> \<bar>target_weight_of (round_double (of_int 70 / height_m_squared 170)) 170 - of_int 70\<bar>
       \<le> of_int 70 / 2 ^ 51"
proof -
  have h: "height_input 170" and w: "weight_input 70"
    by (simp_all add: height_input_def weight_input_def number_input_def)
  have tb: "target_bmi_input 22"
    unfolding target_bmi_input_def double_22 double_24_9 by simp
  from bmi_round_trip_up_to_rounding [OF h w tb] h w tb height_m_squared_170
  show ?thesis by blast
qed

text \<open>
  The round trips are not exact. At 114 cm the target BMI 24.8 comes back as
  24.800000000000004, one step of the double above it; at 120 cm the weight 30 kg comes
  back as 30.000000000000004; and at 140 cm and 49 kg the BMI of the script is
  25.000000000000004 where the quotient is 25.
\<close>

theorem bmi_round_trip_counterexample:
  "height_input 114 \<and> target_bmi_input (round_double (248 / 10))
   \<and> compute_bmi (target_weight_of (round_double (248 / 10)) 114) 114
       = Inr (round_double (248 / 10) + 1 / 2 ^ 48)
   \<and> compute_bmi (target_weight_of (round_double (248 / 10)) 114) 114
       \<noteq> Inr (round_double (248 / 10))
   \<and> height_input 120 \<and> weight_input 30
   \<and> compute_bmi 30 120 = Inr (2932031007402667 / 140737488355328)
   \<and> target_weight_of (2932031007402667 / 140737488355328) 120 = 30 + 1 / 2 ^ 48
   \<and> target_weight_of (2932031007402667 / 140737488355328) 120 \<noteq> 30
   \<and> height_input 140 \<and> weight_input 49
   \<and> compute_bmi 49 140 = Inr (25 + 1 / 2 ^ 48)
   \<and> 49 / (of_int 140 / 100)\<^sup>2 = (25 :: rat)
   \<and> compute_bmi 49 140 \<noteq> Inr (49 / (of_int 140 / 100)\<^sup>2)"
proof -
  have inputs: "height_input 114" "height_input 120" "weight_input 30" "height_input 140"
      "weight_input 49"
    by (simp_all add: height_input_def weight_input_def number_input_def)
  have tb: "target_bmi_input (round_double (248 / 10))"
    unfolding target_bmi_input_def double_24_8 double_24_8_fixed double_24_9 by simp
  have trip: "compute_bmi (target_weight_of (round_double (248 / 10)) 114) 114
       = Inr (round_double (248 / 10) + 1 / 2 ^ 48)"
    by (simp only: double_24_8 target_weight_of_24_8_114 compute_bmi_of_target_weight_114)
  have ne: "round_double (248 / 10) + 1 / 2 ^ 48 \<noteq> round_double (248 / 10)"
    by simp
  have q: "49 / (of_int 140 / 100)\<^sup>2 = (25 :: rat)"
    by (simp add: power2_eq_square)
  show ?thesis
    using inputs tb trip ne q compute_bmi_30_120 target_weight_of_bmi_30_120 compute_bmi_49_140
    by simp
qed

subsection \<open>Daily calorie guidelines\<close>

text \<open>
  Every value of the rate is a multiple of a quarter: with the integer inputs of the
  sidebar, the products and sums of lines 326 and 328 are exact in binary floating point
  as well, so the rational model computes the very number the script computes.
\<close>

lemma bmr_quarter_grid: "\<exists>k::int. bmr g w h a = of_int k / 4"
proof -
  let ?c = "if g = ''Male'' then (5::int) else - 161"
  have "bmr g w h a = of_int (40 * w + 25 * h - 20 * a + 4 * ?c) / 4"
    by (simp add: bmr_def field_simps)
  then show ?thesis by blast
qed

text \<open>
  C1. For every gender, weight, height and age, the basal metabolic rate of the Daily
  Calorie Guidelines is the Mifflin-St Jeor equation:
  \<open>10*weight + 6.25*height - 5*age + 5\<close> when the gender is Male, and
  \<open>10*weight + 6.25*height - 5*age - 161\<close> for any other gender.
\<close>

theorem bmr_is_mifflin_st_jeor:
  "bmr gender w h a =
     mifflin_st_jeor (gender = ''Male'') (of_int w) (of_int h) (of_int a)
   \<and> bmr ''Male'' w h a = 10 * of_int w + 6.25 * of_int h - 5 * of_int a + 5
   \<and> bmr ''Female'' w h a = 10 * of_int w + 6.25 * of_int h - 5 * of_int a - 161
   \<and> bmr gender w h a =
       10 * of_int w + 6.25 * of_int h - 5 * of_int a + (if gender = ''Male'' then 5 else - 161)"
  by (simp add: bmr_def mifflin_st_jeor_def)

theorem bmr_is_mifflin_st_jeor_witness:
  "bmr ''Male'' 70 170 30 = 16175 / 10
   \<and> bmr ''Female'' 70 170 30 = 14515 / 10
   \<and> mifflin_st_jeor True 70 170 30 = 16175 / 10
   \<and> mifflin_st_jeor False 70 170 30 = 14515 / 10"
  using bmr_is_mifflin_st_jeor [of "''Male''" 70 170 30]
    bmr_is_mifflin_st_jeor [of "''Female''" 70 170 30]
  by (simp add: mifflin_st_jeor_def)

text \<open>
  C9. At a BMI of exactly 25 the third metric of the Daily Calorie Guidelines is the
  Weight Gain Goal, \<open>bmr*1.55 + 500\<close>, not the Weight Loss Goal: the Weight Loss Goal,
  \<open>bmr*1.55 - 500\<close>, is shown exactly when the BMI is greater than 25, although 25 is
  where the gauge's third step begins. The boundary is reached from the sidebar, for
  instance by 100 kg at 200 cm.
\<close>

theorem weight_goal_at_bmi_25:
  "weight_goal 25 b = Weight_Gain_Goal (b * 1.55 + 500)
   \<and> (weight_goal v b = Weight_Loss_Goal (b * 1.55 - 500)) = (25 < v)
   \<and> (\<exists>x. weight_goal v b = Weight_Loss_Goal x) = (25 < v)
   \<and> (weight_goal v b = Weight_Gain_Goal (b * 1.55 + 500)) = (v \<le> 25)
   \<and> gauge_steps ! 2 = (25, 30, ''yellow'')
   \<and> weight_input 100 \<and> height_input 200 \<and> age_input 30
   \<and> compute_bmi 100 200 = Inr 25
   \<and> daily_calorie_goal ''Male'' 30 200 100 = Inr (Weight_Gain_Goal (2105 * 1.55 + 500))"
proof -
  have goal: "weight_goal 25 b = Weight_Gain_Goal (b * 1.55 + 500)
      \<and> (weight_goal v b = Weight_Loss_Goal (b * 1.55 - 500)) = (25 < v)
      \<and> (\<exists>x. weight_goal v b = Weight_Loss_Goal x) = (25 < v)
      \<and> (weight_goal v b = Weight_Gain_Goal (b * 1.55 + 500)) = (v \<le> 25)"
    by (auto simp: weight_goal_def)
  have gauge: "gauge_steps ! 2 = (25, 30, ''yellow'')"
    by (simp add: gauge_steps_def)
  have inputs: "weight_input 100 \<and> height_input 200 \<and> age_input 30"
    by (simp add: weight_input_def height_input_def age_input_def number_input_def)
  have "daily_calorie_goal ''Male'' 30 200 100 = Inr (weight_goal 25 (bmr ''Male'' 100 200 30))"
    by (simp add: daily_calorie_goal_def compute_bmi_100_200)
  then have daily:
    "daily_calorie_goal ''Male'' 30 200 100 = Inr (Weight_Gain_Goal (2105 * 1.55 + 500))"
    by (simp add: weight_goal_def bmr_def)
  from goal gauge inputs compute_bmi_100_200 daily show ?thesis by blast
qed

text \<open>
  One rounding step above 25 the branch changes: 49 kg at 140 cm, whose quotient is 25, is
  shown the Weight Loss Goal.
\<close>

lemma daily_calorie_goal_49_140:
  "daily_calorie_goal ''Male'' 30 140 49 = Inr (Weight_Loss_Goal 1391)"
proof -
  have "daily_calorie_goal ''Male'' 30 140 49 =
      Inr (weight_goal (25 + 1 / 2 ^ 48) (bmr ''Male'' 49 140 30))"
    by (simp add: daily_calorie_goal_def compute_bmi_49_140)
  then show ?thesis
    by (simp add: weight_goal_def bmr_def)
qed

theorem weight_goal_at_bmi_25_witness:
  "weight_goal 25 2105 = Weight_Gain_Goal (376275 / 100)
   \<and> weight_goal (251 / 10) 2105 = Weight_Loss_Goal (276275 / 100)"
  using weight_goal_at_bmi_25 [of 2105 "251 / 10"]
  by (simp add: weight_goal_def)

subsection \<open>Calories per minute\<close>

lemma cal_per_min_zero: "cal_per_min c 0 = Inl ZeroDivisionError"
  by (simp add: cal_per_min_def py_truediv_def)

text \<open>
  C10. The calories-per-minute value \<open>calories/duration\<close> never divides by zero: the
  duration is a value of the slider whose minimum is 5 minutes, so it is at least 5 and
  the quotient is defined, whatever the predictor returned.
\<close>

theorem cal_per_min_defined:
  "duration_slider d \<Longrightarrow> 5 \<le> d \<and> d \<noteq> 0 \<and> cal_per_min c d = Inr (c / of_int d)"
  by (auto simp: duration_slider_def slider_def cal_per_min_def py_truediv_def)

theorem cal_per_min_defined_witness:
  "duration_slider 30 \<and> cal_per_min 250 30 = Inr (25 / 3)
   \<and> duration_slider 5 \<and> cal_per_min 250 5 = Inr 50"
  using cal_per_min_defined [of 30 250] cal_per_min_defined [of 5 250]
  by (simp add: duration_slider_def slider_def)

subsection \<open>Statistics only for a non-empty log\<close>

text \<open>
  C8. When \<open>get_logs(days)\<close> returns no entry, tab 2 shows its empty state and the sidebar
  its note, and neither asks the backend for anything more: \<open>get_stats\<close>,
  \<open>get_daily_aggregates\<close> and \<open>analyze_performance\<close> are called exactly when the filtered
  list is not empty, whatever the backend is.
\<close>

theorem no_statistics_without_logs:
  "(logs d = [] \<longrightarrow>
      logbook_tab logs stats_of daily analyze d =
        ([Call_get_logs d],
         Tab2_info ''No logs yet! Start by predicting your calorie burn in the first tab.''))
   \<and> (logs 7 = [] \<longrightarrow>
      sidebar_quick_stats logs stats_of =
        ([Call_get_logs 7], Quick_info ''No activity this week. Start logging!''))
   \<and> (Call_get_stats d \<in> set (fst (logbook_tab logs stats_of daily analyze d))) = (logs d \<noteq> [])
   \<and> (Call_get_daily_aggregates d \<in> set (fst (logbook_tab logs stats_of daily analyze d)))
       = (logs d \<noteq> [])
   \<and> (Call_analyze_performance \<in> set (fst (logbook_tab logs stats_of daily analyze d)))
       = (logs d \<noteq> [])
   \<and> (Call_get_stats 7 \<in> set (fst (sidebar_quick_stats logs stats_of))) = (logs 7 \<noteq> [])"
  by (simp add: logbook_tab_def sidebar_quick_stats_def Let_def)

theorem no_statistics_without_logs_witness:
  "get_logs 1000000 30 [] = []
   \<and> logbook_tab (\<lambda>d. get_logs 1000000 d []) (\<lambda>d. get_stats 1000000 d [])
        (\<lambda>d. get_daily_aggregates 1000000 d []) length 30 =
       ([Call_get_logs 30],
        Tab2_info ''No logs yet! Start by predicting your calorie burn in the first tab.'')
   \<and> sidebar_quick_stats (\<lambda>d. get_logs 1000000 d []) (\<lambda>d. get_stats 1000000 d []) =
       ([Call_get_logs 7], Quick_info ''No activity this week. Start logging!'')
   \<and> Call_get_stats 30 \<notin> set (fst (logbook_tab (\<lambda>d. get_logs 1000000 d [])
        (\<lambda>d. get_stats 1000000 d []) (\<lambda>d. get_daily_aggregates 1000000 d []) length 30))
   \<and> get_logs 1000000 30 [stamp 900000 sample_entry] \<noteq> []
   \<and> fst (logbook_tab (\<lambda>d. get_logs 1000000 d [stamp 900000 sample_entry])
        (\<lambda>d. get_stats 1000000 d [stamp 900000 sample_entry])
        (\<lambda>d. get_daily_aggregates 1000000 d [stamp 900000 sample_entry]) length 30) =
       [Call_get_logs 30, Call_get_stats 30, Call_get_daily_aggregates 30,
        Call_analyze_performance]"
  using no_statistics_without_logs [of "\<lambda>d. get_logs 1000000 d []" 30
      "\<lambda>d. get_stats 1000000 d []" "\<lambda>d. get_daily_aggregates 1000000 d []" length]
  by (simp add: get_logs_def logbook_tab_def cutoff_def stamp_def Let_def)

section \<open>Properties of the backend as the specification describes it\<close>

subsection \<open>Statistics and the filtered log\<close>

lemma stats_pass_eq:
  "stats_pass c es (tc, n, td) =
     (tc + sum_list (map calories_burned (filter (\<lambda>e. c \<le> timestamp e) es)),
      n + length (filter (\<lambda>e. c \<le> timestamp e) es),
      td + sum_list (map duration (filter (\<lambda>e. c \<le> timestamp e) es)))"
  by (induction es arbitrary: tc n td) simp_all

text \<open>
  C2. For every log history and every number of days, \<open>get_stats(days)\<close> agrees with
  \<open>get_logs(days)\<close>: \<open>total_calories\<close> is the sum of \<open>calories_burned\<close> over the entries
  that \<open>get_logs(days)\<close> returns, \<open>total_sessions\<close> is their number, \<open>total_duration\<close> is
  the sum of their durations, and, when there is an entry, \<open>avg_calories\<close> is the sum of
  the calories divided by the number of entries.
\<close>

theorem get_stats_consistent_with_get_logs:
  "total_calories (get_stats now days lb) = sum_list (map calories_burned (get_logs now days lb))
   \<and> total_sessions (get_stats now days lb) = length (get_logs now days lb)
   \<and> total_duration (get_stats now days lb) = sum_list (map duration (get_logs now days lb))
   \<and> (get_logs now days lb \<noteq> [] \<longrightarrow>
        avg_calories (get_stats now days lb) =
          sum_list (map calories_burned (get_logs now days lb))
            / of_nat (length (get_logs now days lb)))"
  by (simp add: get_stats_def get_logs_def stats_pass_eq)

theorem get_stats_consistent_with_get_logs_witness:
  "get_logs 1000000 7
      [stamp 100000 sample_entry, stamp 900000 sample_entry,
       stamp 950000 (sample_entry\<lparr>calories_burned := 100, duration := 10\<rparr>)] =
     [stamp 900000 sample_entry,
      stamp 950000 (sample_entry\<lparr>calories_burned := 100, duration := 10\<rparr>)]
   \<and> get_stats 1000000 7
      [stamp 100000 sample_entry, stamp 900000 sample_entry,
       stamp 950000 (sample_entry\<lparr>calories_burned := 100, duration := 10\<rparr>)] =
     \<lparr>total_calories = 350, avg_calories = 175, total_sessions = 2, total_duration = 40\<rparr>"
  using get_stats_consistent_with_get_logs [of 1000000 7
      "[stamp 100000 sample_entry, stamp 900000 sample_entry,
        stamp 950000 (sample_entry\<lparr>calories_burned := 100, duration := 10\<rparr>)]"]
  by (simp add: get_logs_def get_stats_def cutoff_def stamp_def sample_entry_def)

subsection \<open>The logbook only grows at its end\<close>

lemma run_op_cases:
  "snd (run_op x lb) = lb
   \<or> (\<exists>now e. x = Add_entry now e \<and> snd (run_op x lb) = lb @ [stamp now e])"
  by (cases x) (simp_all add: add_entry_def)

lemma run_ops_extends: "\<exists>new. run_ops xs lb = lb @ new"
proof (induction xs arbitrary: lb)
  case Nil
  then show ?case by simp
next
  case (Cons x xs)
  obtain new where n: "run_ops xs (snd (run_op x lb)) = snd (run_op x lb) @ new"
    using Cons.IH by blast
  from run_op_cases [of x lb] show ?case
  proof
    assume "snd (run_op x lb) = lb"
    with n show ?thesis by simp
  next
    assume "\<exists>now e. x = Add_entry now e \<and> snd (run_op x lb) = lb @ [stamp now e]"
    then obtain now e where "snd (run_op x lb) = lb @ [stamp now e]" by blast
    with n show ?thesis by simp
  qed
qed

text \<open>
  C6. The logbook is append-only. One operation leaves the sequence of entries as it is
  or appends one entry at its end. Over any sequence \<open>xs\<close> of later \<open>add_entry\<close>,
  \<open>get_logs\<close>, \<open>get_stats\<close> and \<open>get_daily_aggregates\<close> calls, the entries that were there
  stay, unchanged and in their order, at the front of the logbook; in particular an entry
  added by \<open>add_entry\<close> stays at the position it was given.
\<close>

theorem logbook_append_only:
  "(snd (run_op x lb) = lb \<or> (\<exists>e. snd (run_op x lb) = lb @ [e]))
   \<and> take (length lb) (run_ops xs lb) = lb
   \<and> length lb \<le> length (run_ops xs lb)
   \<and> take (Suc (length lb)) (run_ops xs (add_entry now e lb)) = lb @ [stamp now e]
   \<and> run_ops xs (add_entry now e lb) ! length lb = stamp now e"
proof -
  have one: "snd (run_op x lb) = lb \<or> (\<exists>e. snd (run_op x lb) = lb @ [e])"
    using run_op_cases [of x lb] by blast
  obtain new where new: "run_ops xs lb = lb @ new"
    using run_ops_extends by blast
  obtain new' where new': "run_ops xs (add_entry now e lb) = add_entry now e lb @ new'"
    using run_ops_extends by blast
  have "take (Suc (length lb)) (run_ops xs (add_entry now e lb)) = lb @ [stamp now e]"
    using new' by (simp add: add_entry_def)
  moreover have "run_ops xs (add_entry now e lb) ! length lb = stamp now e"
    using new' by (simp add: add_entry_def nth_append)
  ultimately show ?thesis using one new by simp
qed

theorem logbook_append_only_witness:
  "run_ops [Get_logs 300 7, Add_entry 400 sample_entry, Get_stats 500 7,
            Get_daily_aggregates 600 7, Add_entry 700 sample_entry] [stamp 100 sample_entry] =
     [stamp 100 sample_entry, stamp 400 sample_entry, stamp 700 sample_entry]
   \<and> snd (run_op (Get_stats 500 7) [stamp 100 sample_entry]) = [stamp 100 sample_entry]
   \<and> snd (run_op (Add_entry 400 sample_entry) [stamp 100 sample_entry]) =
       [stamp 100 sample_entry, stamp 400 sample_entry]"
  using logbook_append_only [of "Get_stats 500 7" "[stamp 100 sample_entry]"
      "[Get_logs 300 7, Add_entry 400 sample_entry, Get_stats 500 7,
        Get_daily_aggregates 600 7, Add_entry 700 sample_entry]" 400 sample_entry]
  by (simp add: add_entry_def)

subsection \<open>BMI categories\<close>

text \<open>Inside each step of the gauge of tab 3 the category does not change.\<close>

lemma gauge_steps_agree_with_categories:
  "(lo, hi, colour) \<in> set gauge_steps \<Longrightarrow> lo \<le> b \<Longrightarrow> b < hi \<Longrightarrow>
     get_bmi_category b = get_bmi_category lo"
  by (auto simp: gauge_steps_def get_bmi_category_def)

text \<open>
  C3. For every BMI, \<open>get_bmi_category\<close> assigns the category by the boundaries 18.5, 25
  and 30: underweight below 18.5, normal from 18.5 up to 25, overweight from 25 up to 30,
  obese from 30 on; each boundary belongs to the category above it.
\<close>

theorem get_bmi_category_boundaries:
  "(get_bmi_category b = Underweight) = (b < 18.5)
   \<and> (get_bmi_category b = Normal) = (18.5 \<le> b \<and> b < 25)
   \<and> (get_bmi_category b = Overweight) = (25 \<le> b \<and> b < 30)
   \<and> (get_bmi_category b = Obese) = (30 \<le> b)"
  by (auto simp: get_bmi_category_def)

theorem get_bmi_category_boundaries_witness:
  "get_bmi_category 18.4 = Underweight \<and> get_bmi_category 18.5 = Normal
   \<and> get_bmi_category 24.9 = Normal \<and> get_bmi_category 25 = Overweight
   \<and> get_bmi_category 29.9 = Overweight \<and> get_bmi_category 30 = Obese"
  using get_bmi_category_boundaries [of "18.4"] get_bmi_category_boundaries [of "18.5"]
    get_bmi_category_boundaries [of "24.9"] get_bmi_category_boundaries [of 25]
    get_bmi_category_boundaries [of "29.9"] get_bmi_category_boundaries [of 30]
  by simp

subsection \<open>The monthly plan\<close>

lemma projected_weights_journey:
  "projected_weights w (get_monthly_suggestions n cb tb w h) =
     map (journey (of_int w) (target_weight_of tb h) n) [0..<Suc n]"
proof -
  have "[0..<Suc n] = 0 # [1..<Suc n]"
    by (simp add: upt_conv_Cons)
  then show ?thesis
    by (simp add: projected_weights_def get_monthly_suggestions_def Let_def journey_def
        comp_def del: upt_Suc)
qed

lemma journey_antimono:
  assumes "goal \<le> w" and "i \<le> j"
  shows "journey w goal n j \<le> journey w goal n i"
proof -
  have "(goal - w) / of_nat n \<le> 0"
    using assms(1) by (simp add: divide_nonpos_nonneg)
  moreover have "(of_nat i :: rat) \<le> of_nat j"
    using assms(2) by simp
  ultimately have "(goal - w) / of_nat n * of_nat j \<le> (goal - w) / of_nat n * of_nat i"
    by (rule mult_left_mono_neg [rotated])
  then show ?thesis by (simp add: journey_def)
qed

lemma journey_mono:
  assumes "w \<le> goal" and "i \<le> j"
  shows "journey w goal n i \<le> journey w goal n j"
proof -
  have "0 \<le> (goal - w) / of_nat n"
    using assms(1) by simp
  moreover have "(of_nat i :: rat) \<le> of_nat j"
    using assms(2) by simp
  ultimately have "(goal - w) / of_nat n * of_nat i \<le> (goal - w) / of_nat n * of_nat j"
    by (rule mult_left_mono [rotated])
  then show ?thesis by (simp add: journey_def)
qed

lemma journey_start: "journey w goal n 0 = w"
  by (simp add: journey_def)

lemma journey_end: "0 < n \<Longrightarrow> journey w goal n n = goal"
  by (simp add: journey_def)

lemma journey_empty_plan: "journey w goal 0 m = w"
  by (simp add: journey_def)

lemma sorted_wrt_map_upt:
  assumes "\<And>i j. i \<le> j \<Longrightarrow> j < k \<Longrightarrow> R (f i) (f j)"
  shows "sorted_wrt R (map f [0..<k])"
  unfolding sorted_wrt_map
proof (rule sorted_wrt_mono_rel [where P = "(<)"])
  show "sorted_wrt (<) [0..<k]" by simp
next
  fix x y assume "x \<in> set [0..<k]" "y \<in> set [0..<k]" "x < y"
  then show "R (f x) (f y)" using assms [of x y] by simp
qed

text \<open>
  C4. For every current BMI, target BMI, weight, height and number of months, the weights
  of the projected journey (the current weight, then the \<open>target_weight\<close> of each month of
  \<open>get_monthly_suggestions\<close>) are monotone between the current weight and the final target
  weight: they never increase when the target weight is below the current weight and never
  decrease when it is above, they stay between the two, they start at the current weight
  and, when the plan has a month, they end at the target weight.
\<close>

theorem monthly_targets_monotone:
  "(target_weight_of tb h \<le> of_int w \<longrightarrow>
      sorted_wrt (\<ge>) (projected_weights w (get_monthly_suggestions n cb tb w h))
      \<and> (\<forall>x \<in> set (projected_weights w (get_monthly_suggestions n cb tb w h)).
            target_weight_of tb h \<le> x \<and> x \<le> of_int w))
   \<and> (of_int w \<le> target_weight_of tb h \<longrightarrow>
      sorted_wrt (\<le>) (projected_weights w (get_monthly_suggestions n cb tb w h))
      \<and> (\<forall>x \<in> set (projected_weights w (get_monthly_suggestions n cb tb w h)).
            of_int w \<le> x \<and> x \<le> target_weight_of tb h))
   \<and> hd (projected_weights w (get_monthly_suggestions n cb tb w h)) = of_int w
   \<and> (0 < n \<longrightarrow>
        last (projected_weights w (get_monthly_suggestions n cb tb w h)) = target_weight_of tb h)
   \<and> projected_months (get_monthly_suggestions n cb tb w h) = [0..<Suc n]"
proof -
  let ?goal = "target_weight_of tb h"
  let ?w = "of_int w :: rat"
  let ?ws = "projected_weights w (get_monthly_suggestions n cb tb w h)"
  have ws: "?ws = map (journey ?w ?goal n) [0..<Suc n]"
    by (rule projected_weights_journey)
  have down: "sorted_wrt (\<ge>) ?ws \<and> (\<forall>x \<in> set ?ws. ?goal \<le> x \<and> x \<le> ?w)" if le: "?goal \<le> ?w"
  proof
    show "sorted_wrt (\<ge>) ?ws"
      unfolding ws by (rule sorted_wrt_map_upt) (simp add: journey_antimono [OF le])
  next
    show "\<forall>x \<in> set ?ws. ?goal \<le> x \<and> x \<le> ?w"
    proof
      fix x assume "x \<in> set ?ws"
      then have "x \<in> journey ?w ?goal n ` {0..<Suc n}"
        unfolding ws by (simp del: upt_Suc)
      then obtain m where m: "m \<le> n" and x: "x = journey ?w ?goal n m"
        by (auto simp: less_Suc_eq_le)
      have "x \<le> ?w"
        using journey_antimono [OF le, of 0 m n] by (simp add: x journey_start)
      moreover have "?goal \<le> x"
      proof (cases "n = 0")
        case True
        then show ?thesis using le by (simp add: x journey_empty_plan)
      next
        case False
        then show ?thesis
          using journey_antimono [OF le m, of n] by (simp add: x journey_end)
      qed
      ultimately show "?goal \<le> x \<and> x \<le> ?w" by simp
    qed
  qed
  have up: "sorted_wrt (\<le>) ?ws \<and> (\<forall>x \<in> set ?ws. ?w \<le> x \<and> x \<le> ?goal)" if le: "?w \<le> ?goal"
  proof
    show "sorted_wrt (\<le>) ?ws"
      unfolding ws by (rule sorted_wrt_map_upt) (simp add: journey_mono [OF le])
  next
    show "\<forall>x \<in> set ?ws. ?w \<le> x \<and> x \<le> ?goal"
    proof
      fix x assume "x \<in> set ?ws"
      then have "x \<in> journey ?w ?goal n ` {0..<Suc n}"
        unfolding ws by (simp del: upt_Suc)
      then obtain m where m: "m \<le> n" and x: "x = journey ?w ?goal n m"
        by (auto simp: less_Suc_eq_le)
      have "?w \<le> x"
        using journey_mono [OF le, of 0 m n] by (simp add: x journey_start)
      moreover have "x \<le> ?goal"
      proof (cases "n = 0")
        case True
        then show ?thesis using le by (simp add: x journey_empty_plan)
      next
        case False
        then show ?thesis
          using journey_mono [OF le m, of n] by (simp add: x journey_end)
      qed
      ultimately show "?w \<le> x \<and> x \<le> ?goal" by simp
    qed
  qed
  have first: "hd ?ws = ?w"
    by (simp add: projected_weights_def)
  have final: "last ?ws = ?goal" if "0 < n"
    using that unfolding ws by (simp add: journey_end del: upt_Suc add: last_map)
  have months: "projected_months (get_monthly_suggestions n cb tb w h) = [0..<Suc n]"
  proof -
    have "[0..<Suc n] = 0 # [1..<Suc n]"
      by (simp add: upt_conv_Cons)
    then show ?thesis
      by (simp add: projected_months_def get_monthly_suggestions_def Let_def comp_def
          del: upt_Suc)
  qed
  from down up first final months show ?thesis by blast
qed

theorem monthly_targets_monotone_witness:
  "target_weight_of 19 200 \<le> of_int 80
   \<and> projected_weights 80 (get_monthly_suggestions 4 20 19 80 200) = [80, 79, 78, 77, 76]
   \<and> sorted_wrt (\<ge>) (projected_weights 80 (get_monthly_suggestions 4 20 19 80 200))
   \<and> of_int 60 \<le> target_weight_of 20 200
   \<and> projected_weights 60 (get_monthly_suggestions 4 15 20 60 200) = [60, 65, 70, 75, 80]
   \<and> sorted_wrt (\<le>) (projected_weights 60 (get_monthly_suggestions 4 15 20 60 200))"
proof -
  have "round_double (19 * 4) = 76" and "round_double (20 * 4) = 80"
    by code_simp+
  then have a: "target_weight_of 19 200 = 76" and b: "target_weight_of 20 200 = 80"
    by (simp_all add: target_weight_of_def height_m_squared_200)
  have c: "projected_weights 80 (get_monthly_suggestions 4 20 19 80 200) = [80, 79, 78, 77, 76]"
    by (simp add: projected_weights_def get_monthly_suggestions_def Let_def upt_rec a)
  have d: "projected_weights 60 (get_monthly_suggestions 4 15 20 60 200) = [60, 65, 70, 75, 80]"
    by (simp add: projected_weights_def get_monthly_suggestions_def Let_def upt_rec b)
  show ?thesis
    using monthly_targets_monotone [of 19 200 80 4 20]
      monthly_targets_monotone [of 20 200 60 4 15]
    by (simp add: a b c d)
qed

end
